theory Spec2Isabelle
  imports Complex_Main "HOL-Library.Log_Nat"
begin

section \<open>The improved reimbursement engine\<close>

text \<open>
  A shallow embedding of \<^verbatim>\<open>calculate_reimbursement\<close> of
  \<^verbatim>\<open>improved_reimbursement.py\<close>. The trip duration is a Python \<^verbatim>\<open>int\<close>
  (the command line parses it with \<^verbatim>\<open>int(...)\<close>) and is an \<^typ>\<open>int\<close> here.
  Miles and receipts are Python floats and are embedded as \<^typ>\<open>real\<close>. Every local
  variable of the source that a later stage reads is a definition of the same name.

  Two stages truncate a float product to an integer, the quarter hash and the cent
  extraction, and there the last bit of the product decides the outcome. These two stages
  are modelled with the binary64 product: the argument is taken as the double nearest to
  it, and the product is rounded to the nearest double, ties to even. The other stages,
  the tier formulas, the floor and the final rounding, are modelled with exact arithmetic:
  there a returned value can differ from CPython's in the last place of the running
  total, and by one cent where the total lies that close to half a cent.

  The exponent range of binary64 has no upper limit in this model. In CPython a product
  beyond the largest double is \<^verbatim>\<open>inf\<close>, \<^verbatim>\<open>int(inf)\<close> raises
  \<^verbatim>\<open>OverflowError\<close> and \<^verbatim>\<open>int(inf % 100)\<close> raises \<^verbatim>\<open>ValueError\<close>. The
  predicate \<open>double_overflow\<close> below says when a product is that large; the model follows
  the code on the inputs where it is false.
\<close>

subsection \<open>Python primitives\<close>

datatype py_error = ZeroDivisionError

text \<open>True division \<^verbatim>\<open>a / b\<close>: raises on a zero divisor.\<close>

definition py_truediv :: "real \<Rightarrow> real \<Rightarrow> py_error + real" where
  "py_truediv a b = (if b = 0 then Inl ZeroDivisionError else Inr (a / b))"

text \<open>\<^verbatim>\<open>int(x)\<close> on a float: truncation towards zero.\<close>

definition py_int :: "real \<Rightarrow> int" where
  "py_int x = (if 0 \<le> x then \<lfloor>x\<rfloor> else \<lceil>x\<rceil>)"

text \<open>
  Rounding to binary64. \<open>binade x\<close> is the exponent \<open>e\<close> with
  \<open>2 ^ e \<le> \<bar>x\<bar> < 2 ^ (e + 1)\<close>, \<open>ulp x\<close> the spacing of the doubles there (53 bits of
  significand, and \<open>2 ^ - 1074\<close> for the subnormal numbers), and \<open>py_float x\<close> the
  multiple of the spacing nearest to \<open>x\<close>, a tie going to the even multiple. This is the
  value of a float literal and of \<^verbatim>\<open>float(...)\<close>.
\<close>

definition round_half_even :: "real \<Rightarrow> int" where
  "round_half_even y =
     (let f = \<lfloor>y\<rfloor>; r = y - of_int f
      in if r < 1 / 2 then f else if 1 / 2 < r then f + 1 else if even f then f else f + 1)"

definition binade :: "real \<Rightarrow> int" where
  "binade x = (if 1 \<le> \<bar>x\<bar> then bitlen \<lfloor>\<bar>x\<bar>\<rfloor> - 1 else - bitlen (\<lceil>1 / \<bar>x\<bar>\<rceil> - 1))"

definition ulp :: "real \<Rightarrow> real" where
  "ulp x = 2 powi (max (binade x) (- 1022) - 52)"

definition py_float :: "real \<Rightarrow> real" where
  "py_float x = (if x = 0 then 0 else of_int (round_half_even (x / ulp x)) * ulp x)"

text \<open>\<^verbatim>\<open>a * b\<close> on floats: the exact product, rounded.\<close>

definition py_mul :: "real \<Rightarrow> real \<Rightarrow> real" where
  "py_mul a b = py_float (a * b)"

text \<open>
  An exact result this large rounds to \<^verbatim>\<open>inf\<close>: the largest double is
  \<open>2 ^ 1024 - 2 ^ 971\<close> and half a spacing above it is \<open>2 ^ 970\<close>.
\<close>

definition double_overflow :: "real \<Rightarrow> bool" where
  "double_overflow x = (2 ^ 1024 - 2 ^ 970 \<le> \<bar>x\<bar>)"

text \<open>
  \<^verbatim>\<open>x % y\<close> on floats. The C library's \<^verbatim>\<open>fmod\<close> gives the exact remainder of
  the truncated quotient, with the sign of \<open>x\<close>; when it is not zero and its sign is
  not the divisor's, CPython adds the divisor with a float addition. The source only ever
  divides by the literal \<^verbatim>\<open>100\<close>, so the zero-divisor error cannot occur.
\<close>

definition py_fmod :: "real \<Rightarrow> real \<Rightarrow> real" where
  "py_fmod x y =
     (let r = x - y * of_int (py_int (x / y))
      in if r \<noteq> 0 \<and> ((y < 0) \<noteq> (r < 0)) then py_float (r + y) else r)"

text \<open>
  \<^verbatim>\<open>round(x, 2)\<close>: the nearest multiple of one hundredth, a tie going to the
  even one.
\<close>

definition py_round2 :: "real \<Rightarrow> real" where
  "py_round2 x =
     (let y = x * 100; f = \<lfloor>y\<rfloor>; r = y - of_int f
      in of_int (if r < 1 / 2 then f
                 else if 1 / 2 < r then f + 1
                 else if even f then f else f + 1) / 100)"

subsection \<open>Base formula and mileage tiers (source lines 26 to 37)\<close>

definition base_reimbursement :: "int \<Rightarrow> real \<Rightarrow> real" where
  "base_reimbursement trip_duration_days miles_traveled =
     (let base = of_int trip_duration_days * 115 + miles_traveled * 0.42
      in if miles_traveled > 800 then base - (miles_traveled - 800) * 0.15
         else if miles_traveled > 400 then base - (miles_traveled - 400) * 0.05
         else base)"

subsection \<open>Receipt processing (source lines 41 to 61)\<close>

definition multipliers :: "(int \<times> real) list" where
  "multipliers =
     [(1, 0.520), (2, 0.500), (3, 0.380), (4, 0.410), (5, 0.395),
      (6, 0.385), (7, 0.330), (8, 0.225), (9, 0.150), (10, 0.105),
      (11, 0.090), (12, 0.040), (13, - 0.005), (14, - 0.055)]"

text \<open>\<^verbatim>\<open>multipliers.get(trip_duration_days, -0.08)\<close>\<close>

definition receipt_multiplier :: "int \<Rightarrow> real" where
  "receipt_multiplier trip_duration_days =
     (case map_of multipliers trip_duration_days of
        Some v \<Rightarrow> v
      | None \<Rightarrow> - 0.08)"

definition receipt_contribution :: "int \<Rightarrow> real \<Rightarrow> real" where
  "receipt_contribution trip_duration_days total_receipts_amount =
     (if total_receipts_amount > 2000
      then (2000 + (total_receipts_amount - 2000) * 0.2) * receipt_multiplier trip_duration_days
      else if total_receipts_amount > 1000
      then 1000 * receipt_multiplier trip_duration_days
           + (total_receipts_amount - 1000) * receipt_multiplier trip_duration_days * 0.6
      else total_receipts_amount * receipt_multiplier trip_duration_days)"

subsection \<open>Special case adjustments (source lines 66 to 92)\<close>

text \<open>
  The efficiency rule of lines 66 to 71. The division raises on a zero divisor, and it
  sits under the guard \<^verbatim>\<open>trip_duration_days > 0\<close>.
\<close>

definition efficiency_bonus :: "int \<Rightarrow> real \<Rightarrow> py_error + int" where
  "efficiency_bonus trip_duration_days miles_traveled =
     (if trip_duration_days > 0
      then (case py_truediv miles_traveled (of_int trip_duration_days) of
              Inl e \<Rightarrow> Inl e
            | Inr miles_per_day \<Rightarrow>
                Inr (if 200 \<le> miles_per_day \<and> miles_per_day \<le> 300
                     then min (trip_duration_days * 8) 40 else 0))
      else Inr 0)"

text \<open>Lines 74 and 75 add this amount to the same variable.\<close>

definition five_day_bonus :: "int \<Rightarrow> int" where
  "five_day_bonus trip_duration_days = (if trip_duration_days = 5 then 20 else 0)"

definition trip_hash :: "int \<Rightarrow> real \<Rightarrow> real \<Rightarrow> int" where
  "trip_hash trip_duration_days miles_traveled total_receipts_amount =
     (trip_duration_days * 17 + py_int (py_mul (py_float miles_traveled) 13)
        + py_int (py_mul (py_float total_receipts_amount) 7)) mod 100"

definition quarter_adjustment :: "int \<Rightarrow> real \<Rightarrow> real \<Rightarrow> int" where
  "quarter_adjustment trip_duration_days miles_traveled total_receipts_amount =
     (if trip_duration_days \<ge> 3
      then (if trip_hash trip_duration_days miles_traveled total_receipts_amount < 15
            then trip_duration_days * 5 else 0)
      else 0)"

definition cents :: "real \<Rightarrow> int" where
  "cents total_receipts_amount =
     py_int (py_fmod (py_mul (py_float total_receipts_amount) 100) 100)"

definition rounding_bonus :: "real \<Rightarrow> int" where
  "rounding_bonus total_receipts_amount =
     (if cents total_receipts_amount = 49 then 8
      else if cents total_receipts_amount = 99 then 12
      else 0)"

subsection \<open>Final calculation, floor and rounding (source lines 95 to 107)\<close>

text \<open>The running total of lines 95 to 99, before the floor.\<close>

definition total_reimbursement :: "int \<Rightarrow> real \<Rightarrow> real \<Rightarrow> py_error + real" where
  "total_reimbursement trip_duration_days miles_traveled total_receipts_amount =
     (case efficiency_bonus trip_duration_days miles_traveled of
        Inl e \<Rightarrow> Inl e
      | Inr eb \<Rightarrow>
          Inr (base_reimbursement trip_duration_days miles_traveled
               + receipt_contribution trip_duration_days total_receipts_amount
               + of_int (eb + five_day_bonus trip_duration_days)
               + of_int (quarter_adjustment trip_duration_days miles_traveled
                           total_receipts_amount)
               + of_int (rounding_bonus total_receipts_amount)))"

definition min_reimbursement :: "int \<Rightarrow> int" where
  "min_reimbursement trip_duration_days = trip_duration_days * 85"

definition floor_clamp :: "int \<Rightarrow> real \<Rightarrow> real" where
  "floor_clamp trip_duration_days running_total =
     (if running_total < of_int (min_reimbursement trip_duration_days)
      then of_int (min_reimbursement trip_duration_days) else running_total)"

definition calculate_reimbursement :: "int \<Rightarrow> real \<Rightarrow> real \<Rightarrow> py_error + real" where
  "calculate_reimbursement trip_duration_days miles_traveled total_receipts_amount =
     (case total_reimbursement trip_duration_days miles_traveled total_receipts_amount of
        Inl e \<Rightarrow> Inl e
      | Inr running_total \<Rightarrow>
          Inr (py_round2 (floor_clamp trip_duration_days running_total)))"

section \<open>Properties of the primitives and of the stages\<close>

lemma py_round2_cases:
  "py_round2 x = of_int \<lfloor>x * 100\<rfloor> / 100 \<or> py_round2 x = of_int (\<lfloor>x * 100\<rfloor> + 1) / 100"
  by (simp add: py_round2_def Let_def)

lemma py_round2_hundredths: "\<exists>k::int. py_round2 x = of_int k / 100"
  using py_round2_cases [of x] by blast

lemma py_round2_ge_int:
  assumes "of_int n \<le> x"
  shows "of_int n \<le> py_round2 x"
proof -
  have "of_int (n * 100) \<le> x * 100" using assms by simp
  then have "n * 100 \<le> \<lfloor>x * 100\<rfloor>" by (simp only: le_floor_iff)
  then have "(of_int (n * 100) :: real) \<le> of_int \<lfloor>x * 100\<rfloor>" by (simp only: of_int_le_iff)
  then have a: "(of_int n :: real) \<le> of_int \<lfloor>x * 100\<rfloor> / 100" by simp
  then have b: "(of_int n :: real) \<le> of_int (\<lfloor>x * 100\<rfloor> + 1) / 100" by simp
  from a b py_round2_cases [of x] show ?thesis by auto
qed

lemma py_round2_near: "\<bar>py_round2 x - x\<bar> \<le> 1 / 200"
proof -
  define f where "f = \<lfloor>x * 100\<rfloor>"
  have lo: "of_int f \<le> x * 100" and hi: "x * 100 < of_int f + 1"
    unfolding f_def by linarith+
  have "py_round2 x =
      of_int (if x * 100 - of_int f < 1 / 2 then f
              else if 1 / 2 < x * 100 - of_int f then f + 1
              else if even f then f else f + 1) / 100"
    by (simp add: py_round2_def Let_def f_def)
  with lo hi show ?thesis
    by (auto simp: abs_le_iff field_simps split: if_splits)
qed

lemma py_int_nonneg: "0 \<le> x \<Longrightarrow> py_int x = \<lfloor>x\<rfloor>"
  by (simp add: py_int_def)

lemma round_half_even_near: "\<bar>of_int (round_half_even y) - y\<bar> \<le> 1 / 2"
proof -
  have "of_int \<lfloor>y\<rfloor> \<le> y" and "y < of_int \<lfloor>y\<rfloor> + 1" by linarith+
  then show ?thesis
    by (auto simp: round_half_even_def Let_def abs_le_iff)
qed

lemma round_half_even_nonneg: "0 \<le> y \<Longrightarrow> 0 \<le> round_half_even y"
  by (auto simp: round_half_even_def Let_def)

lemma round_half_even_int: "round_half_even (of_int n) = n"
  by (simp add: round_half_even_def)

lemma ulp_pos: "0 < ulp x"
  by (simp add: ulp_def)

lemma binade_bounds:
  assumes "x \<noteq> 0"
  shows "2 powi binade x \<le> \<bar>x\<bar>" and "\<bar>x\<bar> < 2 powi (binade x + 1)"
proof -
  have both: "2 powi binade x \<le> \<bar>x\<bar> \<and> \<bar>x\<bar> < 2 powi (binade x + 1)"
  proof (cases "1 \<le> \<bar>x\<bar>")
    case True
    define n where "n = \<lfloor>\<bar>x\<bar>\<rfloor>"
    have n: "0 < n" using True by (simp add: n_def)
    have b: "binade x = bitlen n - 1" using True by (simp add: binade_def n_def)
    have k: "1 \<le> bitlen n" using n bitlen_eq_zero_iff [of n] bitlen_nonneg [of n] by linarith
    from bitlen_bounds [OF n]
    have lo: "2 ^ nat (bitlen n - 1) \<le> n" and hi: "n < 2 ^ nat (bitlen n)" by simp_all
    have "(2::real) ^ nat (bitlen n - 1) \<le> of_int n"
      using lo by (metis of_int_le_iff of_int_numeral of_int_power)
    also have "\<dots> \<le> \<bar>x\<bar>" by (simp add: n_def)
    finally have 1: "2 powi binade x \<le> \<bar>x\<bar>"
      using k by (simp add: b power_int_nonneg_exp)
    have "n + 1 \<le> 2 ^ nat (bitlen n)" using hi by simp
    then have "(of_int (n + 1) :: real) \<le> 2 ^ nat (bitlen n)"
      by (metis of_int_le_iff of_int_numeral of_int_power)
    moreover have "\<bar>x\<bar> < of_int (n + 1)" unfolding n_def by linarith
    ultimately have "\<bar>x\<bar> < 2 ^ nat (bitlen n)" by linarith
    then have 2: "\<bar>x\<bar> < 2 powi (binade x + 1)"
      using k by (simp add: b power_int_nonneg_exp)
    from 1 2 show ?thesis ..
  next
    case False
    define y where "y = 1 / \<bar>x\<bar>"
    define m where "m = \<lceil>y\<rceil> - 1"
    have xp: "0 < \<bar>x\<bar>" using assms by simp
    have y1: "1 < y" using False xp by (simp add: y_def)
    have m: "0 < m" using y1 unfolding m_def by linarith
    have b: "binade x = - bitlen m" using False by (simp add: binade_def m_def y_def)
    have k: "1 \<le> bitlen m" using m bitlen_eq_zero_iff [of m] bitlen_nonneg [of m] by linarith
    from bitlen_bounds [OF m]
    have lo: "2 ^ nat (bitlen m - 1) \<le> m" and hi: "m < 2 ^ nat (bitlen m)" by simp_all
    have "m + 1 \<le> 2 ^ nat (bitlen m)" using hi by simp
    then have "(of_int (m + 1) :: real) \<le> 2 ^ nat (bitlen m)"
      by (metis of_int_le_iff of_int_numeral of_int_power)
    moreover have "y \<le> of_int (m + 1)" unfolding m_def by simp
    ultimately have yle: "y \<le> 2 ^ nat (bitlen m)" by linarith
    have "(2::real) ^ nat (bitlen m - 1) \<le> of_int m"
      using lo by (metis of_int_le_iff of_int_numeral of_int_power)
    moreover have "of_int m < y" unfolding m_def by linarith
    ultimately have ylt: "2 ^ nat (bitlen m - 1) < y" by linarith
    have x: "\<bar>x\<bar> = 1 / y" using xp by (simp add: y_def)
    have 1: "2 powi binade x \<le> \<bar>x\<bar>"
    proof -
      have "1 / 2 ^ nat (bitlen m) \<le> 1 / y"
        using yle y1 by (intro divide_left_mono) simp_all
      moreover have "2 powi binade x = (1::real) / 2 ^ nat (bitlen m)"
        using k by (simp add: b power_int_minus_divide power_int_nonneg_exp)
      ultimately show ?thesis by (simp add: x)
    qed
    have 2: "\<bar>x\<bar> < 2 powi (binade x + 1)"
    proof -
      have "1 / y < 1 / 2 ^ nat (bitlen m - 1)"
        using ylt y1 by (intro divide_strict_left_mono) simp_all
      moreover have "2 powi (binade x + 1) = (1::real) / 2 ^ nat (bitlen m - 1)"
      proof -
        have "binade x + 1 = - (bitlen m - 1)" by (simp add: b)
        then show ?thesis
          using k by (simp only: power_int_minus_divide) (simp add: power_int_nonneg_exp)
      qed
      ultimately show ?thesis by (simp add: x)
    qed
    from 1 2 show ?thesis ..
  qed
  from both show "2 powi binade x \<le> \<bar>x\<bar>" and "\<bar>x\<bar> < 2 powi (binade x + 1)" by simp_all
qed

lemma py_float_multiple: "\<exists>k::int. py_float x = of_int k * ulp x"
  by (cases "x = 0") (auto simp: py_float_def intro: exI [of _ 0])

lemma py_float_near: "\<bar>py_float x - x\<bar> \<le> ulp x / 2"
proof (cases "x = 0")
  case True
  then show ?thesis using ulp_pos [of x] by (simp add: py_float_def)
next
  case False
  have "\<bar>of_int (round_half_even (x / ulp x)) - x / ulp x\<bar> * ulp x \<le> 1 / 2 * ulp x"
    using round_half_even_near [of "x / ulp x"] ulp_pos [of x]
    by (intro mult_right_mono) simp_all
  moreover have "\<bar>of_int (round_half_even (x / ulp x)) - x / ulp x\<bar> * ulp x
      = \<bar>of_int (round_half_even (x / ulp x)) * ulp x - x\<bar>"
  proof -
    have "\<bar>of_int (round_half_even (x / ulp x)) - x / ulp x\<bar> * ulp x
        = \<bar>(of_int (round_half_even (x / ulp x)) - x / ulp x) * ulp x\<bar>"
      using ulp_pos [of x] by (simp add: abs_mult)
    also have "(of_int (round_half_even (x / ulp x)) - x / ulp x) * ulp x
        = of_int (round_half_even (x / ulp x)) * ulp x - x"
      using ulp_pos [of x] by (simp add: left_diff_distrib)
    finally show ?thesis .
  qed
  ultimately show ?thesis using False by (simp add: py_float_def)
qed

lemma py_float_nonneg: "0 \<le> x \<Longrightarrow> 0 \<le> py_float x"
  using ulp_pos [of x] round_half_even_nonneg [of "x / ulp x"]
  by (simp add: py_float_def)

lemma py_mul_nonneg: "0 \<le> a \<Longrightarrow> 0 \<le> b \<Longrightarrow> 0 \<le> py_mul a b"
  by (simp add: py_mul_def py_float_nonneg)

text \<open>
  A double is an integer below \<open>2 ^ 53\<close> in absolute value times a power of two not
  below \<open>2 ^ - 1074\<close>. Rounding gives a double and leaves a double as it is, so on an
  argument that is a float already the two stages compute with the argument itself.
\<close>

lemma powi2_less_imp: "(2::real) powi m < 2 powi n \<Longrightarrow> m < n"
proof (rule ccontr)
  assume a: "(2::real) powi m < 2 powi n" and "\<not> m < n"
  then have "n \<le> m" by simp
  then have "(2::real) powi n \<le> 2 powi m" by (intro power_int_increasing) simp_all
  with a show False by simp
qed

lemma powi2_add: "(2::real) powi (m + n) = 2 powi m * 2 powi n"
  by (simp add: power_int_add)

lemma round_half_even_le: "y \<le> of_int n \<Longrightarrow> round_half_even y \<le> n"
proof -
  assume a: "y \<le> of_int n"
  have f: "of_int \<lfloor>y\<rfloor> \<le> y" by simp
  show ?thesis
  proof (cases "y = of_int n")
    case True
    then show ?thesis by (simp add: round_half_even_int)
  next
    case False
    with a have "y < of_int n" by simp
    then have "\<lfloor>y\<rfloor> < n" by (simp add: floor_less_iff)
    then have "\<lfloor>y\<rfloor> + 1 \<le> n" by simp
    then show ?thesis by (auto simp: round_half_even_def Let_def)
  qed
qed

lemma round_half_even_ge: "of_int n \<le> y \<Longrightarrow> n \<le> round_half_even y"
proof -
  assume "of_int n \<le> y"
  then have "n \<le> \<lfloor>y\<rfloor>" by (simp add: le_floor_iff)
  then show ?thesis by (auto simp: round_half_even_def Let_def)
qed

lemma py_float_fixes_doubles:
  assumes k: "\<bar>k\<bar> < 2 ^ 53" and q: "- 1074 \<le> q"
  shows "py_float (of_int k * 2 powi q) = of_int k * 2 powi q"
proof (cases "k = 0")
  case True
  then show ?thesis by (simp add: py_float_def)
next
  case False
  define y :: real where "y = of_int k * 2 powi q"
  have y0: "y \<noteq> 0" using False by (simp add: y_def)
  have ay: "\<bar>y\<bar> = of_int \<bar>k\<bar> * 2 powi q" by (simp add: y_def abs_mult)
  have "of_int \<bar>k\<bar> < (2::real) ^ 53"
    using k by (metis of_int_less_iff of_int_numeral of_int_power)
  then have "\<bar>y\<bar> < 2 ^ 53 * 2 powi q"
    unfolding ay by (intro mult_strict_right_mono) simp_all
  also have "\<dots> = 2 powi (53 + q)" by (simp add: powi2_add)
  finally have "2 powi binade y < (2::real) powi (53 + q)"
    using binade_bounds(1) [OF y0] by linarith
  then have b: "binade y < 53 + q" by (rule powi2_less_imp)
  define e where "e = max (binade y) (- 1022) - 52"
  have e: "e \<le> q" using b q by (simp add: e_def)
  have u: "ulp y = 2 powi e" by (simp add: ulp_def e_def)
  have s: "2 powi q = (2::real) powi (q - e) * 2 powi e"
    by (simp flip: powi2_add)
  have n: "(2::real) powi (q - e) = of_int (2 ^ nat (q - e))"
    using e by (simp add: power_int_nonneg_exp)
  have ys: "y = of_int k * (2 powi (q - e) * 2 powi e)"
    unfolding y_def by (simp only: s [symmetric])
  have "y / ulp y = y / 2 powi e" by (simp only: u)
  also have "\<dots> = of_int k * (2 powi (q - e) * 2 powi e) / 2 powi e"
    by (subst ys) (rule refl)
  also have "\<dots> = of_int k * 2 powi (q - e)" by simp
  also have "\<dots> = of_int (k * 2 ^ nat (q - e))" by (simp add: n)
  finally have "y / ulp y = of_int (k * 2 ^ nat (q - e))" .
  then have "round_half_even (y / ulp y) = k * 2 ^ nat (q - e)"
    by (simp only: round_half_even_int)
  then have "py_float y = of_int (k * 2 ^ nat (q - e)) * 2 powi e"
    using y0 by (simp add: py_float_def u)
  also have "\<dots> = of_int k * ((2::real) powi (q - e) * 2 powi e)"
    using e by (simp add: power_int_nonneg_exp)
  also have "(2::real) powi (q - e) * 2 powi e = 2 powi q"
    by (simp flip: powi2_add)
  finally show ?thesis by (simp add: y_def)
qed

lemma py_float_is_double:
  "\<exists>k q. py_float x = of_int k * 2 powi q \<and> \<bar>k\<bar> < 2 ^ 53 \<and> - 1074 \<le> q"
proof (cases "x = 0")
  case True
  have "py_float x = of_int 0 * 2 powi 0 \<and> \<bar>0::int\<bar> < 2 ^ 53 \<and> - 1074 \<le> (0::int)"
    using True by (simp add: py_float_def)
  then show ?thesis by blast
next
  case False
  define E where "E = max (binade x) (- 1022)"
  define k where "k = round_half_even (x / ulp x)"
  have u: "ulp x = 2 powi (E - 52)" by (simp add: ulp_def E_def)
  have y: "py_float x = of_int k * 2 powi (E - 52)"
    using False by (simp add: py_float_def k_def u)
  have E: "- 1022 \<le> E" "binade x \<le> E" by (simp_all add: E_def)
  have "\<bar>x\<bar> < 2 powi (binade x + 1)" using binade_bounds(2) [OF False] .
  also have "\<dots> \<le> 2 powi (E + 1)" using E by (intro power_int_increasing) simp_all
  also have "\<dots> = 2 ^ 53 * 2 powi (E - 52)"
  proof -
    have "E + 1 = 53 + (E - 52)" by simp
    then show ?thesis by (simp only: powi2_add) simp
  qed
  finally have "\<bar>x\<bar> / 2 powi (E - 52) < 2 ^ 53"
    by (simp add: pos_divide_less_eq)
  then have ax: "\<bar>x / ulp x\<bar> < 2 ^ 53" by (simp add: u)
  then have ax2: "x / ulp x \<le> of_int (2 ^ 53)" "of_int (- (2 ^ 53)) \<le> x / ulp x"
    by (simp_all only: abs_less_iff of_int_minus of_int_power of_int_numeral) linarith+
  have up: "k \<le> 2 ^ 53"
    unfolding k_def using ax2(1) by (rule round_half_even_le)
  have lo: "- (2 ^ 53) \<le> k"
    unfolding k_def using ax2(2) by (rule round_half_even_ge)
  show ?thesis
  proof (cases "\<bar>k\<bar> < 2 ^ 53")
    case True
    with y E show ?thesis by (intro exI [of _ k] exI [of _ "E - 52"]) simp
  next
    case False
    with up lo have k2: "k = 2 ^ 53 \<or> k = - (2 ^ 53)" by linarith
    have p: "(2::real) powi (E - 51) = 2 * 2 powi (E - 52)"
    proof -
      have "E - 51 = 1 + (E - 52)" by simp
      then show ?thesis by (simp only: powi2_add) simp
    qed
    from k2 show ?thesis
    proof
      assume "k = 2 ^ 53"
      then have "py_float x = of_int (2 ^ 52) * 2 powi (E - 51)" by (simp add: y p)
      moreover have "\<bar>2 ^ 52 :: int\<bar> < 2 ^ 53" by simp
      moreover have "- 1074 \<le> E - 51" using E by simp
      ultimately show ?thesis by blast
    next
      assume "k = - (2 ^ 53)"
      then have "py_float x = of_int (- (2 ^ 52)) * 2 powi (E - 51)" by (simp add: y p)
      moreover have "\<bar>- (2 ^ 52) :: int\<bar> < 2 ^ 53" by simp
      moreover have "- 1074 \<le> E - 51" using E by simp
      ultimately show ?thesis by blast
    qed
  qed
qed

lemma py_float_idem: "py_float (py_float x) = py_float x"
proof -
  obtain k q where "py_float x = of_int k * 2 powi q" "\<bar>k\<bar> < 2 ^ 53" "- 1074 \<le> q"
    using py_float_is_double by blast
  then show ?thesis by (simp add: py_float_fixes_doubles)
qed

lemma binade_unique:
  assumes "2 powi e \<le> \<bar>x\<bar>" and "\<bar>x\<bar> < 2 powi (e + 1)"
  shows "binade x = e"
proof -
  have "(0::real) < 2 powi e" by simp
  with assms(1) have "0 < \<bar>x\<bar>" by linarith
  then have x: "x \<noteq> 0" by simp
  have "(2::real) powi binade x < 2 powi (e + 1)"
    using binade_bounds(1) [OF x] assms(2) by linarith
  then have 1: "binade x < e + 1" by (rule powi2_less_imp)
  have "(2::real) powi e < 2 powi (binade x + 1)"
    using binade_bounds(2) [OF x] assms(1) by linarith
  then have 2: "e < binade x + 1" by (rule powi2_less_imp)
  from 1 2 show ?thesis by simp
qed

lemma py_float_lower:
  assumes "2 powi e \<le> x" and "x < 2 powi (e + 1)" and "- 1022 \<le> e"
  shows "x - 2 powi (e - 53) \<le> py_float x"
proof -
  have "(0::real) < 2 powi e" by simp
  with assms(1) have x: "0 < x" by linarith
  then have "binade x = e" using assms by (intro binade_unique) simp_all
  then have u: "ulp x = 2 powi (e - 52)" using assms(3) by (simp add: ulp_def)
  have "(2::real) powi (e - 52) = 2 powi (1 + (e - 53))" by simp
  also have "\<dots> = 2 * 2 powi (e - 53)" by (simp only: powi2_add) simp
  finally have "ulp x / 2 = 2 powi (e - 53)" by (simp add: u)
  with py_float_near [of x] show ?thesis by (simp add: abs_le_iff)
qed

text \<open>
  Two products outside the range of the model: \<open>10 ^ 308\<close> miles times 13 and
  \<open>10 ^ 307\<close> in receipts times 100 round to \<^verbatim>\<open>inf\<close>, and CPython raises at
  \<^verbatim>\<open>int(...)\<close> on lines 81 and 87.
\<close>

lemma products_beyond_the_doubles:
  "double_overflow (py_float (10 ^ 308) * 13)" "double_overflow (py_float (10 ^ 307) * 100)"
proof -
  have a: "10 ^ 308 - 2 powi (1023 - 53) \<le> py_float (10 ^ 308)"
    by (rule py_float_lower) simp_all
  have b: "10 ^ 307 - 2 powi (1019 - 53) \<le> py_float (10 ^ 307)"
    by (rule py_float_lower) simp_all
  from a show "double_overflow (py_float (10 ^ 308) * 13)"
    by (simp add: double_overflow_def abs_le_iff)
  from b show "double_overflow (py_float (10 ^ 307) * 100)"
    by (simp add: double_overflow_def abs_le_iff)
qed

lemma cents_floor_mod:
  assumes "0 \<le> a"
  shows "cents a = \<lfloor>py_mul (py_float a) 100\<rfloor> mod 100"
proof -
  define x where "x = py_mul (py_float a) 100"
  have x0: "0 \<le> x"
    unfolding x_def using assms by (intro py_mul_nonneg py_float_nonneg) simp_all
  then have q: "py_int (x / 100) = \<lfloor>x\<rfloor> div 100"
    using floor_divide_real_eq_div [of 100 x] by (simp add: py_int_nonneg)
  define r where "r = x - 100 * of_int (\<lfloor>x\<rfloor> div 100)"
  have "r = x - of_int (100 * (\<lfloor>x\<rfloor> div 100))" by (simp add: r_def)
  then have fl: "\<lfloor>r\<rfloor> = \<lfloor>x\<rfloor> - 100 * (\<lfloor>x\<rfloor> div 100)"
    by (simp only: floor_diff_of_int)
  have m: "\<lfloor>x\<rfloor> - 100 * (\<lfloor>x\<rfloor> div 100) = \<lfloor>x\<rfloor> mod 100"
    by (simp add: minus_mult_div_eq_mod)
  have "0 \<le> \<lfloor>x\<rfloor> mod 100" by simp
  with fl m have "0 \<le> \<lfloor>r\<rfloor>" by simp
  then have r0: "0 \<le> r" by (simp only: zero_le_floor)
  then have "py_fmod x 100 = r" by (simp add: py_fmod_def q r_def Let_def)
  moreover have "py_int r = \<lfloor>r\<rfloor>" using r0 by (rule py_int_nonneg)
  ultimately show ?thesis using fl m by (simp add: cents_def x_def)
qed

lemma efficiency_bonus_pos:
  "0 < d \<Longrightarrow> efficiency_bonus d miles =
     Inr (if 200 \<le> miles / of_int d \<and> miles / of_int d \<le> 300 then min (d * 8) 40 else 0)"
  by (simp add: efficiency_bonus_def py_truediv_def)

lemma efficiency_bonus_nonpos: "d \<le> 0 \<Longrightarrow> efficiency_bonus d miles = Inr 0"
  by (simp add: efficiency_bonus_def)

lemma efficiency_bonus_returns: "\<exists>b. efficiency_bonus d miles = Inr b"
  by (cases "0 < d") (simp_all add: efficiency_bonus_pos efficiency_bonus_nonpos)

lemma total_reimbursement_returns: "\<exists>t. total_reimbursement d miles receipts = Inr t"
  using efficiency_bonus_returns [of d miles]
  by (auto simp: total_reimbursement_def)

lemma calculate_reimbursement_eq:
  "total_reimbursement d miles receipts = Inr t \<Longrightarrow>
   calculate_reimbursement d miles receipts = Inr (py_round2 (floor_clamp d t))"
  by (simp add: calculate_reimbursement_def)

lemma floor_clamp_ge: "of_int (d * 85) \<le> floor_clamp d t"
  by (simp add: floor_clamp_def min_reimbursement_def)

lemma receipt_multiplier_outside:
  "d < 1 \<or> 14 < d \<Longrightarrow> receipt_multiplier d = - 0.08"
  by (auto simp: receipt_multiplier_def multipliers_def)

lemma receipt_multiplier_13: "receipt_multiplier 13 = - 0.005"
  by (simp add: receipt_multiplier_def multipliers_def)

lemma receipt_multiplier_14: "receipt_multiplier 14 = - 0.055"
  by (simp add: receipt_multiplier_def multipliers_def)

lemma receipt_contribution_low:
  "a \<le> 1000 \<Longrightarrow> receipt_contribution d a = a * receipt_multiplier d"
  by (simp add: receipt_contribution_def)

lemma receipt_contribution_mid:
  "1000 \<le> a \<Longrightarrow> a \<le> 2000 \<Longrightarrow>
   receipt_contribution d a = 1000 * receipt_multiplier d + (a - 1000) * receipt_multiplier d * 0.6"
  by (simp add: receipt_contribution_def)

lemma receipt_contribution_high:
  "2000 < a \<Longrightarrow>
   receipt_contribution d a = (2000 + (a - 2000) * 0.2) * receipt_multiplier d"
  by (simp add: receipt_contribution_def)

lemma base_reimbursement_low:
  "m \<le> 400 \<Longrightarrow> base_reimbursement d m = of_int d * 115 + m * 0.42"
  by (simp add: base_reimbursement_def)

lemma base_reimbursement_mid:
  "400 \<le> m \<Longrightarrow> m \<le> 800 \<Longrightarrow>
   base_reimbursement d m = of_int d * 115 + m * 0.42 - (m - 400) * 0.05"
  by (cases "m = 400") (simp_all add: base_reimbursement_def Let_def)

lemma base_reimbursement_high:
  "800 < m \<Longrightarrow> base_reimbursement d m = of_int d * 115 + m * 0.42 - (m - 800) * 0.15"
  by (simp add: base_reimbursement_def)

lemma base_reimbursement_piecewise:
  "base_reimbursement d m =
     of_int d * 115 + (if 800 < m then 0.27 * m + 120 else if 400 < m then 0.37 * m + 20
                       else 0.42 * m)"
  by (simp add: base_reimbursement_def Let_def algebra_simps)

lemma base_reimbursement_mono:
  assumes "m1 \<le> m2"
  shows "base_reimbursement d m1 \<le> base_reimbursement d m2"
proof -
  consider "m2 \<le> 400" | "m1 \<le> 400" "400 < m2" "m2 \<le> 800" | "m1 \<le> 400" "800 < m2"
    | "400 < m1" "m2 \<le> 800" | "400 < m1" "m1 \<le> 800" "800 < m2" | "800 < m1"
    by linarith
  then show ?thesis
  proof cases
    case 1
    with assms show ?thesis unfolding base_reimbursement_piecewise by simp
  next
    case 2
    with assms show ?thesis unfolding base_reimbursement_piecewise by simp
  next
    case 3
    with assms show ?thesis unfolding base_reimbursement_piecewise by simp
  next
    case 4
    with assms show ?thesis unfolding base_reimbursement_piecewise by simp
  next
    case 5
    with assms show ?thesis unfolding base_reimbursement_piecewise by simp
  next
    case 6
    with assms show ?thesis unfolding base_reimbursement_piecewise by simp
  qed
qed

text \<open>The definitions a rounded product unfolds to on a concrete input.\<close>

lemmas double_defs =
  py_mul_def py_float_def ulp_def binade_def round_half_even_def Let_def compute_bitlen

lemma receipts_product_across_cap:
  "py_int (py_mul (py_float 2000.01) 7) = 14000" "py_int (py_mul (py_float 2000) 7) = 14000"
  by (simp_all add: py_int_def double_defs)

lemma quarter_adjustment_across_cap:
  "quarter_adjustment d miles 2000.01 = quarter_adjustment d miles 2000"
  unfolding quarter_adjustment_def trip_hash_def receipts_product_across_cap by (rule refl)

lemma rounding_bonus_at_cap: "rounding_bonus 2000 = 0" "rounding_bonus 2000.01 = 0"
  by (simp_all add: rounding_bonus_def cents_floor_mod double_defs)

text \<open>The definitions a concrete call unfolds to.\<close>

lemmas engine_defs =
  calculate_reimbursement_def total_reimbursement_def floor_clamp_def min_reimbursement_def
  base_reimbursement_def receipt_contribution_def receipt_multiplier_def multipliers_def
  efficiency_bonus_def py_truediv_def five_day_bonus_def quarter_adjustment_def trip_hash_def
  rounding_bonus_def cents_def py_int_def py_fmod_def py_round2_def double_defs

section \<open>The claims\<close>

text \<open>
  C1. For every input with \<open>duration_days \<ge> 1\<close>, \<open>miles_traveled \<ge> 0\<close> and
  \<open>total_receipts_amount \<ge> 0\<close> the function returns a value, and that value is at least
  \<open>duration_days * 85\<close>: a running total below the floor is replaced by the floor, and
  the final rounding does not go below it.
\<close>

theorem floor_invariant:
  assumes "1 \<le> d" and "0 \<le> miles" and "0 \<le> receipts"
  shows "(\<exists>v. calculate_reimbursement d miles receipts = Inr v \<and> of_int (d * 85) \<le> v)
       \<and> (\<forall>t. t < of_int (d * 85) \<longrightarrow> floor_clamp d t = of_int (d * 85))"
proof -
  obtain t where t: "total_reimbursement d miles receipts = Inr t"
    using total_reimbursement_returns by blast
  have "of_int (d * 85) \<le> py_round2 (floor_clamp d t)"
    by (rule py_round2_ge_int) (rule floor_clamp_ge)
  with calculate_reimbursement_eq [OF t] show ?thesis
    by (simp add: floor_clamp_def min_reimbursement_def)
qed

text \<open>
  Fourteen days, no miles and 40000 in receipts: the running total is 1082, below the
  floor of 1190, and the result is the floor.
\<close>

theorem floor_invariant_witness:
  "(1::int) \<le> 14 \<and> (0::real) \<le> 0 \<and> (0::real) \<le> 40000
   \<and> (\<exists>v. calculate_reimbursement 14 0 40000 = Inr v \<and> of_int (14 * 85) \<le> v)
   \<and> (1082::real) < of_int (14 * 85)
   \<and> floor_clamp 14 1082 = of_int (14 * 85)
   \<and> total_reimbursement 14 0 40000 = Inr 1082
   \<and> calculate_reimbursement 14 0 40000 = Inr 1190"
proof -
  have run: "total_reimbursement 14 0 40000 = Inr 1082"
    "calculate_reimbursement 14 0 40000 = Inr 1190"
    by (simp_all add: engine_defs)
  from floor_invariant [of 14 0 40000] run show ?thesis by simp
qed

text \<open>
  C3. For a duration whose receipt multiplier is positive, the receipt contribution grows by
  the multiplier per unit of receipts up to 1000, by the multiplier times 0.6 between 1000
  and 2000, and by the multiplier times 0.2 above 2000; each rate is strictly smaller than
  the one before.
\<close>

theorem receipt_tier_marginal_rates:
  assumes "0 < receipt_multiplier d"
  shows "(a \<le> 1000 \<and> b \<le> 1000 \<longrightarrow>
            receipt_contribution d b - receipt_contribution d a
              = receipt_multiplier d * (b - a))
       \<and> (1000 \<le> a \<and> a \<le> 2000 \<and> 1000 \<le> b \<and> b \<le> 2000 \<longrightarrow>
            receipt_contribution d b - receipt_contribution d a
              = receipt_multiplier d * 0.6 * (b - a))
       \<and> (2000 < a \<and> 2000 < b \<longrightarrow>
            receipt_contribution d b - receipt_contribution d a
              = receipt_multiplier d * 0.2 * (b - a))
       \<and> receipt_multiplier d * 0.2 < receipt_multiplier d * 0.6
       \<and> receipt_multiplier d * 0.6 < receipt_multiplier d"
  using assms
  by (auto simp: receipt_contribution_low receipt_contribution_mid receipt_contribution_high
      algebra_simps)

theorem receipt_tier_marginal_rates_witness:
  "0 < receipt_multiplier 1
   \<and> ((200::real) \<le> 1000 \<and> (700::real) \<le> 1000)
   \<and> receipt_contribution 1 700 - receipt_contribution 1 200
       = receipt_multiplier 1 * (700 - 200)
   \<and> ((1000::real) \<le> 1200 \<and> (1200::real) \<le> 2000 \<and> (1000::real) \<le> 1500
        \<and> (1500::real) \<le> 2000)
   \<and> receipt_contribution 1 1500 - receipt_contribution 1 1200
       = receipt_multiplier 1 * 0.6 * (1500 - 1200)
   \<and> ((2000::real) < 2500 \<and> (2000::real) < 3000)
   \<and> receipt_contribution 1 3000 - receipt_contribution 1 2500
       = receipt_multiplier 1 * 0.2 * (3000 - 2500)
   \<and> receipt_multiplier 1 * 0.2 < receipt_multiplier 1 * 0.6
   \<and> receipt_multiplier 1 * 0.6 < receipt_multiplier 1"
proof -
  have pos: "0 < receipt_multiplier 1"
    by (simp add: receipt_multiplier_def multipliers_def)
  show ?thesis
    using pos receipt_tier_marginal_rates [OF pos, of 200 700]
      receipt_tier_marginal_rates [OF pos, of 1200 1500]
      receipt_tier_marginal_rates [OF pos, of 2500 3000]
    by simp
qed

text \<open>
  C4. With the duration fixed, the per-diem plus mileage subtotal after the tier correction
  never decreases when the miles grow. It grows by 0.42 per mile up to 400 miles, by
  0.42 - 0.05 per mile between 400 and 800 miles and by 0.42 - 0.15 per mile above 800
  miles, and each rate is strictly smaller than the one before. The receipts are not read
  by this stage.
\<close>

theorem mileage_subtotal_monotone_tiered:
  "(m1 \<le> m2 \<longrightarrow> base_reimbursement d m1 \<le> base_reimbursement d m2)
   \<and> (m1 \<le> 400 \<and> m2 \<le> 400 \<longrightarrow>
        base_reimbursement d m2 - base_reimbursement d m1 = 0.42 * (m2 - m1))
   \<and> (400 \<le> m1 \<and> m1 \<le> 800 \<and> 400 \<le> m2 \<and> m2 \<le> 800 \<longrightarrow>
        base_reimbursement d m2 - base_reimbursement d m1 = (0.42 - 0.05) * (m2 - m1))
   \<and> (800 < m1 \<and> 800 < m2 \<longrightarrow>
        base_reimbursement d m2 - base_reimbursement d m1 = (0.42 - 0.15) * (m2 - m1))
   \<and> (0.42 - 0.15 :: real) < 0.42 - 0.05 \<and> (0.42 - 0.05 :: real) < 0.42"
  by (auto simp: base_reimbursement_mono base_reimbursement_low base_reimbursement_mid
      base_reimbursement_high algebra_simps)

theorem mileage_subtotal_monotone_tiered_witness:
  "((700::real) \<le> 900 \<and> base_reimbursement 3 700 \<le> base_reimbursement 3 900)
   \<and> ((100::real) \<le> 400 \<and> (300::real) \<le> 400
        \<and> base_reimbursement 3 300 - base_reimbursement 3 100 = 0.42 * (300 - 100))
   \<and> ((400::real) \<le> 500 \<and> (500::real) \<le> 800 \<and> (400::real) \<le> 700 \<and> (700::real) \<le> 800
        \<and> base_reimbursement 3 700 - base_reimbursement 3 500 = (0.42 - 0.05) * (700 - 500))
   \<and> ((800::real) < 900 \<and> (800::real) < 1000
        \<and> base_reimbursement 3 1000 - base_reimbursement 3 900 = (0.42 - 0.15) * (1000 - 900))"
  using mileage_subtotal_monotone_tiered [of 700 900 3]
    mileage_subtotal_monotone_tiered [of 100 300 3]
    mileage_subtotal_monotone_tiered [of 500 700 3]
    mileage_subtotal_monotone_tiered [of 900 1000 3]
  by simp

text \<open>
  C5. For a duration of at least one day the efficiency rule (source lines 66 to 71)
  returns a bonus of zero when miles per day is below 200 or above 300, and of
  \<open>min (duration_days * 8) 40\<close> when miles per day is in the closed range from 200 to 300;
  the bonus never exceeds 40. The extra 20 that lines 74 and 75 add for a five-day trip is
  \<^const>\<open>five_day_bonus\<close>, a separate rule.
\<close>

theorem efficiency_bonus_bound:
  assumes "1 \<le> d"
  shows "\<exists>b. efficiency_bonus d miles = Inr b \<and> b \<le> 40
           \<and> (miles / of_int d < 200 \<or> 300 < miles / of_int d \<longrightarrow> b = 0)
           \<and> (200 \<le> miles / of_int d \<and> miles / of_int d \<le> 300 \<longrightarrow> b = min (d * 8) 40)"
proof -
  from assms have "0 < d" by simp
  then show ?thesis by (auto simp: efficiency_bonus_pos)
qed

theorem efficiency_bonus_bound_witness:
  "((1::int) \<le> 2
      \<and> (200::real) \<le> 500 / of_int 2 \<and> 500 / of_int 2 \<le> (300::real)
      \<and> efficiency_bonus 2 500 = Inr (min (2 * 8) 40) \<and> min (2 * 8) 40 \<le> (40::int))
   \<and> ((1::int) \<le> 2
      \<and> 700 / of_int 2 > (300::real)
      \<and> efficiency_bonus 2 700 = Inr 0)"
  using efficiency_bonus_bound [of 2 500] efficiency_bonus_bound [of 2 700]
  by auto

text \<open>
  C6. For non-negative miles and receipts whose products with 13 and with 7 are finite
  doubles, the quarter adjustment is zero for a duration below three days; from three days
  on it is \<open>duration_days * 5\<close> exactly when
  \<open>h = (duration_days * 17 + \<lfloor>miles_traveled * 13\<rfloor> + \<lfloor>total_receipts_amount * 7\<rfloor>) mod 100\<close>
  is below 15, and zero otherwise. The two products are the float products the source
  computes. The decision is fixed by the inputs: the right-hand side mentions nothing
  else, and two trips of the same duration whose products have the same integer parts get
  the same adjustment.
\<close>

theorem quarter_adjustment_rule:
  assumes "0 \<le> miles" and "0 \<le> receipts"
    and "\<not> double_overflow (py_float miles * 13)"
    and "\<not> double_overflow (py_float receipts * 7)"
  shows "(d < 3 \<longrightarrow> quarter_adjustment d miles receipts = 0)
       \<and> quarter_adjustment d miles receipts =
           (if 3 \<le> d \<and> (d * 17 + \<lfloor>py_mul (py_float miles) 13\<rfloor>
                           + \<lfloor>py_mul (py_float receipts) 7\<rfloor>) mod 100 < 15
            then d * 5 else 0)
       \<and> (0 \<le> miles' \<and> 0 \<le> receipts'
            \<and> \<lfloor>py_mul (py_float miles') 13\<rfloor> = \<lfloor>py_mul (py_float miles) 13\<rfloor>
            \<and> \<lfloor>py_mul (py_float receipts') 7\<rfloor> = \<lfloor>py_mul (py_float receipts) 7\<rfloor>
          \<longrightarrow> quarter_adjustment d miles' receipts' = quarter_adjustment d miles receipts)"
proof -
  have h: "trip_hash d m r
      = (d * 17 + \<lfloor>py_mul (py_float m) 13\<rfloor> + \<lfloor>py_mul (py_float r) 7\<rfloor>) mod 100"
    if "0 \<le> m" and "0 \<le> r" for m r
  proof -
    have "0 \<le> py_mul (py_float m) 13" and "0 \<le> py_mul (py_float r) 7"
      using that by (simp_all add: py_mul_nonneg py_float_nonneg)
    then show ?thesis by (simp add: trip_hash_def py_int_nonneg)
  qed
  show ?thesis
    using h [OF assms(1,2)] h [of miles' receipts']
    by (simp add: quarter_adjustment_def)
qed

text \<open>
  Two days; three days with 4 miles (hash 3) and with 5 miles (hash 16); three days with
  the double nearest to 3.769230769230769, whose product with 13 rounds up to 49 and gives
  hash 0; and 4.05 miles, which has the same integer part of the product as 4 miles.
\<close>

theorem quarter_adjustment_rule_witness:
  "((0::real) \<le> 4 \<and> (0::real) \<le> 0
      \<and> \<not> double_overflow (py_float 4 * 13) \<and> \<not> double_overflow (py_float 0 * 7)
      \<and> (2::int) < 3 \<and> quarter_adjustment 2 4 0 = 0)
   \<and> ((3::int) \<le> 3
      \<and> (3 * 17 + \<lfloor>py_mul (py_float 4) 13\<rfloor> + \<lfloor>py_mul (py_float 0) 7\<rfloor>) mod 100 = 3
      \<and> quarter_adjustment 3 4 0 = 3 * 5)
   \<and> ((0::real) \<le> 5 \<and> \<not> double_overflow (py_float 5 * 13)
      \<and> (3 * 17 + \<lfloor>py_mul (py_float 5) 13\<rfloor> + \<lfloor>py_mul (py_float 0) 7\<rfloor>) mod 100 = 16
      \<and> quarter_adjustment 3 5 0 = 0)
   \<and> ((0::real) \<le> 3.769230769230769
      \<and> \<not> double_overflow (py_float 3.769230769230769 * 13)
      \<and> \<lfloor>py_mul (py_float 3.769230769230769) 13\<rfloor> = 49
      \<and> (3 * 17 + \<lfloor>py_mul (py_float 3.769230769230769) 13\<rfloor>
            + \<lfloor>py_mul (py_float 0) 7\<rfloor>) mod 100 = 0
      \<and> quarter_adjustment 3 3.769230769230769 0 = 3 * 5)
   \<and> ((0::real) \<le> 4.05
      \<and> \<lfloor>py_mul (py_float 4.05) 13\<rfloor> = \<lfloor>py_mul (py_float 4) 13\<rfloor>
      \<and> quarter_adjustment 3 4.05 0 = quarter_adjustment 3 4 0)"
proof -
  have fin: "\<not> double_overflow (py_float 4 * 13)" "\<not> double_overflow (py_float 0 * 7)"
    "\<not> double_overflow (py_float 5 * 13)"
    "\<not> double_overflow (py_float 3.769230769230769 * 13)"
    by (simp_all add: double_overflow_def double_defs)
  have prod: "\<lfloor>py_mul (py_float 4) 13\<rfloor> = 52" "\<lfloor>py_mul (py_float 0) 7\<rfloor> = 0"
    "\<lfloor>py_mul (py_float 5) 13\<rfloor> = 65" "\<lfloor>py_mul (py_float 3.769230769230769) 13\<rfloor> = 49"
    "\<lfloor>py_mul (py_float 4.05) 13\<rfloor> = 52"
    by (simp_all add: double_defs)
  have a: "quarter_adjustment 2 4 0 = 0"
    using quarter_adjustment_rule [of 4 0 2 4 0] fin by simp
  have b: "quarter_adjustment 3 4 0 = 3 * 5"
    using quarter_adjustment_rule [of 4 0 3 4 0] fin prod by simp
  have c: "quarter_adjustment 3 5 0 = 0"
    using quarter_adjustment_rule [of 5 0 3 5 0] fin prod by simp
  have d: "quarter_adjustment 3 3.769230769230769 0 = 3 * 5"
    using quarter_adjustment_rule [of "3.769230769230769" 0 3 "3.769230769230769" 0] fin prod
    by simp
  have e: "quarter_adjustment 3 4.05 0 = quarter_adjustment 3 4 0"
    using quarter_adjustment_rule [of 4 0 3 "4.05" 0] fin prod by simp
  from fin prod a b c d e show ?thesis by simp
qed

text \<open>
  C7. For a non-negative amount whose product with 100 is a finite double, the rounding
  bonus is 8 when \<open>\<lfloor>amount * 100\<rfloor> mod 100\<close> is 49, 12 when it is 99, and 0 for every
  other cent value. The product is the float product the source computes, so the cent
  value is the one the source sees: 49 for the double nearest to 1.49, and 48 for the
  double nearest to 16.49, whose product with 100 is just below 1649.
\<close>

theorem rounding_bonus_cent_values:
  assumes "0 \<le> a" and "\<not> double_overflow (py_float a * 100)"
  shows "rounding_bonus a =
     (if \<lfloor>py_mul (py_float a) 100\<rfloor> mod 100 = 49 then 8
      else if \<lfloor>py_mul (py_float a) 100\<rfloor> mod 100 = 99 then 12
      else 0)"
  using assms(1) by (simp add: rounding_bonus_def cents_floor_mod)

theorem rounding_bonus_cent_values_witness:
  "((0::real) \<le> 1.49 \<and> \<not> double_overflow (py_float 1.49 * 100)
      \<and> \<lfloor>py_mul (py_float 1.49) 100\<rfloor> mod 100 = 49 \<and> rounding_bonus 1.49 = 8)
   \<and> ((0::real) \<le> 0.99 \<and> \<not> double_overflow (py_float 0.99 * 100)
      \<and> \<lfloor>py_mul (py_float 0.99) 100\<rfloor> mod 100 = 99 \<and> rounding_bonus 0.99 = 12)
   \<and> ((0::real) \<le> 16.49 \<and> \<not> double_overflow (py_float 16.49 * 100)
      \<and> \<lfloor>py_mul (py_float 16.49) 100\<rfloor> mod 100 = 48 \<and> rounding_bonus 16.49 = 0)"
proof -
  have fin: "\<not> double_overflow (py_float 1.49 * 100)"
    "\<not> double_overflow (py_float 0.99 * 100)" "\<not> double_overflow (py_float 16.49 * 100)"
    by (simp_all add: double_overflow_def double_defs)
  have prod: "\<lfloor>py_mul (py_float 1.49) 100\<rfloor> = 149" "\<lfloor>py_mul (py_float 0.99) 100\<rfloor> = 99"
    "\<lfloor>py_mul (py_float 16.49) 100\<rfloor> = 1648"
    by (simp_all add: double_defs)
  have a: "rounding_bonus 1.49 = 8"
    using rounding_bonus_cent_values [of "1.49"] fin prod by simp
  have b: "rounding_bonus 0.99 = 12"
    using rounding_bonus_cent_values [of "0.99"] fin prod by simp
  have c: "rounding_bonus 16.49 = 0"
    using rounding_bonus_cent_values [of "16.49"] fin prod by simp
  from fin prod a b c show ?thesis by simp
qed

text \<open>
  C8. One day, no miles, no receipts: the result is the one-day base accrual
  \<open>1 * 115 = 115\<close>. The mileage correction, the receipt contribution, the efficiency,
  five-day, quarter and rounding bonuses are all zero, and the floor of 85 is below the
  running total of 115, so the clamp changes nothing.
\<close>

theorem scenario_one_day:
  "calculate_reimbursement 1 0 0 = Inr 115
   \<and> base_reimbursement 1 0 = 1 * 115
   \<and> receipt_contribution 1 0 = 0
   \<and> efficiency_bonus 1 0 = Inr 0
   \<and> five_day_bonus 1 = 0
   \<and> quarter_adjustment 1 0 0 = 0
   \<and> rounding_bonus 0 = 0
   \<and> total_reimbursement 1 0 0 = Inr 115
   \<and> min_reimbursement 1 = 85
   \<and> floor_clamp 1 115 = 115"
  by (simp add: engine_defs)

text \<open>
  C9. At receipts of exactly 2000 the contribution is 1600 times the multiplier (the middle
  branch); above 2000 it is 2000 times the multiplier plus 0.2 times the multiplier for
  each unit above 2000, so it jumps by 400 times the multiplier at the cap. The multiplier
  is negative for 13 and 14 days and is the default -0.08 outside 1 to 14 days; with a
  negative multiplier one cent more than 2000 gives a strictly smaller contribution and a
  strictly smaller running total before the floor.
\<close>

theorem receipt_contribution_jump_at_upper_cap:
  "receipt_contribution d 2000 = 1600 * receipt_multiplier d
   \<and> (2000 < a \<longrightarrow>
        receipt_contribution d a
          = 2000 * receipt_multiplier d + (a - 2000) * 0.2 * receipt_multiplier d)
   \<and> (2000 < a \<longrightarrow>
        receipt_contribution d a - receipt_contribution d 2000
          = 400 * receipt_multiplier d + (a - 2000) * 0.2 * receipt_multiplier d)
   \<and> (d = 13 \<or> d = 14 \<or> d < 1 \<or> 14 < d \<longrightarrow> receipt_multiplier d < 0)
   \<and> (d < 1 \<or> 14 < d \<longrightarrow> receipt_multiplier d = - 0.08)
   \<and> (receipt_multiplier d < 0 \<longrightarrow>
        receipt_contribution d 2000.01 < receipt_contribution d 2000)
   \<and> (receipt_multiplier d < 0 \<longrightarrow>
        (\<exists>t0 t1. total_reimbursement d miles 2000 = Inr t0
                \<and> total_reimbursement d miles 2000.01 = Inr t1 \<and> t1 < t0))"
proof -
  have at: "receipt_contribution d 2000 = 1600 * receipt_multiplier d"
    by (simp add: receipt_contribution_mid)
  have above: "receipt_contribution d a
      = 2000 * receipt_multiplier d + (a - 2000) * 0.2 * receipt_multiplier d" if "2000 < a" for a
    using that by (simp add: receipt_contribution_high algebra_simps)
  have neg: "receipt_multiplier d < 0" if "d = 13 \<or> d = 14 \<or> d < 1 \<or> 14 < d"
    using that receipt_multiplier_outside [of d]
    by (auto simp: receipt_multiplier_13 receipt_multiplier_14)
  have cent: "receipt_contribution d 2000.01 < receipt_contribution d 2000"
    if "receipt_multiplier d < 0"
    using that by (simp add: at above)
  have tot: "\<exists>t0 t1. total_reimbursement d miles 2000 = Inr t0
                \<and> total_reimbursement d miles 2000.01 = Inr t1 \<and> t1 < t0"
    if "receipt_multiplier d < 0"
  proof -
    obtain eb where eb: "efficiency_bonus d miles = Inr eb"
      using efficiency_bonus_returns by blast
    define rest where "rest = base_reimbursement d miles + of_int (eb + five_day_bonus d)
        + of_int (quarter_adjustment d miles 2000)"
    have t0: "total_reimbursement d miles 2000 = Inr (rest + receipt_contribution d 2000)"
      unfolding total_reimbursement_def eb rounding_bonus_at_cap rest_def
      by simp
    have t1: "total_reimbursement d miles 2000.01
        = Inr (rest + receipt_contribution d 2000.01)"
      unfolding total_reimbursement_def eb rounding_bonus_at_cap quarter_adjustment_across_cap
        rest_def
      by simp
    have "rest + receipt_contribution d 2000.01 < rest + receipt_contribution d 2000"
      using cent [OF that] by simp
    with t0 t1 show ?thesis by blast
  qed
  show ?thesis
    using at above [of a] neg cent tot receipt_multiplier_outside [of d]
    by (simp add: algebra_simps)
qed

theorem receipt_contribution_jump_at_upper_cap_witness:
  "receipt_contribution 13 2000 = 1600 * receipt_multiplier 13
   \<and> (2000::real) < 2500
   \<and> receipt_contribution 13 2500
       = 2000 * receipt_multiplier 13 + (2500 - 2000) * 0.2 * receipt_multiplier 13
   \<and> receipt_contribution 13 2500 - receipt_contribution 13 2000
       = 400 * receipt_multiplier 13 + (2500 - 2000) * 0.2 * receipt_multiplier 13
   \<and> receipt_multiplier 13 < 0
   \<and> receipt_contribution 13 2000.01 < receipt_contribution 13 2000
   \<and> (\<exists>t0 t1. total_reimbursement 13 100 2000 = Inr t0
            \<and> total_reimbursement 13 100 2000.01 = Inr t1 \<and> t1 < t0)"
proof -
  note j = receipt_contribution_jump_at_upper_cap [of 13 2500 100]
  have a: "(2000::real) < 2500" by simp
  from j have neg: "receipt_multiplier 13 < 0" by blast
  from j a neg show ?thesis by blast
qed



end
